theory Spec2Isabelle
  imports Complex_Main
begin

text \<open>
  A model of \<open>serial_plotter.py\<close>: the thread \<open>SerialReader\<close> that reads lines from
  a serial port and puts the parsed values on a queue, and the window \<open>SerialPlotter\<close>
  that starts and stops the thread, moves the queued values to its buffer on a timer and
  sets the axis ranges of the plot.
\<close>

section \<open>Python values used by the serial plotter\<close>

text \<open>
  A Python \<open>float\<close> is an IEEE binary64 value. The model keeps the three non-finite
  values apart and keeps a finite value as the real number it denotes: the rounding of
  binary64 (and the sign of zero) is not modelled, the behaviour of \<open>nan\<close> and of the
  infinities in comparisons and arithmetic is.
\<close>

datatype pyfloat = Fin real | PInf | NInf | NaN

fun is_finite :: "pyfloat \<Rightarrow> bool" where
  "is_finite (Fin _) = True"
| "is_finite _ = False"

fun is_nan :: "pyfloat \<Rightarrow> bool" where
  "is_nan NaN = True"
| "is_nan _ = False"

text \<open>\<open>a < b\<close> on floats: every comparison with \<open>nan\<close> is false.\<close>

fun py_lt :: "pyfloat \<Rightarrow> pyfloat \<Rightarrow> bool" where
  "py_lt NaN _ = False"
| "py_lt _ NaN = False"
| "py_lt (Fin x) (Fin y) = (x < y)"
| "py_lt _ NInf = False"
| "py_lt NInf _ = True"
| "py_lt PInf _ = False"
| "py_lt (Fin _) PInf = True"

definition py_gt :: "pyfloat \<Rightarrow> pyfloat \<Rightarrow> bool" where
  "py_gt a b = py_lt b a"

text \<open>\<open>a == b\<close> on floats: \<open>nan\<close> is not equal to anything, itself included.\<close>

definition py_eq :: "pyfloat \<Rightarrow> pyfloat \<Rightarrow> bool" where
  "py_eq a b = (\<not> is_nan a \<and> \<not> is_nan b \<and> a = b)"

fun py_neg :: "pyfloat \<Rightarrow> pyfloat" where
  "py_neg (Fin x) = Fin (- x)"
| "py_neg PInf = NInf"
| "py_neg NInf = PInf"
| "py_neg NaN = NaN"

fun py_add :: "pyfloat \<Rightarrow> pyfloat \<Rightarrow> pyfloat" where
  "py_add NaN _ = NaN"
| "py_add _ NaN = NaN"
| "py_add (Fin x) (Fin y) = Fin (x + y)"
| "py_add PInf NInf = NaN"
| "py_add NInf PInf = NaN"
| "py_add PInf _ = PInf"
| "py_add NInf _ = NInf"
| "py_add (Fin _) b = b"

definition py_sub :: "pyfloat \<Rightarrow> pyfloat \<Rightarrow> pyfloat" where
  "py_sub a b = py_add a (py_neg b)"

fun py_sign :: "pyfloat \<Rightarrow> int" where
  "py_sign (Fin x) = (if x < 0 then - 1 else if x = 0 then 0 else 1)"
| "py_sign PInf = 1"
| "py_sign NInf = - 1"
| "py_sign NaN = 0"

fun py_mul :: "pyfloat \<Rightarrow> pyfloat \<Rightarrow> pyfloat" where
  "py_mul NaN _ = NaN"
| "py_mul _ NaN = NaN"
| "py_mul (Fin x) (Fin y) = Fin (x * y)"
| "py_mul a b =
     (if py_sign a * py_sign b = 0 then NaN
      else if py_sign a * py_sign b < 0 then NInf else PInf)"

text \<open>
  The builtins \<open>min\<close> and \<open>max\<close> on a non-empty sequence keep the first item and
  replace it by a later one only when \<open>item < kept\<close> (\<open>item > kept\<close>) is true.
  The first item is passed apart, so the empty sequence (a \<open>ValueError\<close> in Python)
  cannot be asked for.
\<close>

definition py_min :: "pyfloat \<Rightarrow> pyfloat list \<Rightarrow> pyfloat" where
  "py_min x xs = foldl (\<lambda>m v. if py_lt v m then v else m) x xs"

definition py_max :: "pyfloat \<Rightarrow> pyfloat list \<Rightarrow> pyfloat" where
  "py_max x xs = foldl (\<lambda>m v. if py_gt v m then v else m) x xs"

subsection \<open>Text to number: \<open>bytes.strip\<close>, \<open>float\<close> and \<open>int\<close>\<close>

type_synonym bytes = "char list"

definition is_space :: "char \<Rightarrow> bool" where
  "is_space c = (of_char c \<in> {9, 10, 11, 12, 13, 32 :: nat})"

definition bytes_strip :: "bytes \<Rightarrow> bytes" where
  "bytes_strip b = rev (dropWhile is_space (rev (dropWhile is_space b)))"

definition is_digit :: "char \<Rightarrow> bool" where
  "is_digit c = (48 \<le> (of_char c :: nat) \<and> (of_char c :: nat) \<le> 57)"

definition to_lower :: "char \<Rightarrow> char" where
  "to_lower c =
     (if 65 \<le> (of_char c :: nat) \<and> (of_char c :: nat) \<le> 90
      then char_of (of_char c + (32 :: nat)) else c)"

text \<open>The number written by a run of decimal digits, most significant first.\<close>

definition digits_value :: "string \<Rightarrow> nat" where
  "digits_value ds = foldl (\<lambda>n c. 10 * n + (of_char c - 48)) 0 ds"

text \<open>
  An underscore in a numeric literal is accepted only between two digits; the parser
  then reads the text without its underscores.
\<close>

fun underscores_ok :: "char \<Rightarrow> string \<Rightarrow> bool" where
  "underscores_ok prev [] = (prev \<noteq> CHR ''_'')"
| "underscores_ok prev (c # cs) =
     ((if c = CHR ''_'' then is_digit prev
       else (prev = CHR ''_'' \<longrightarrow> is_digit c))
      \<and> underscores_ok c cs)"

definition strip_underscores :: "string \<Rightarrow> string option" where
  "strip_underscores s =
     (if underscores_ok (CHR 0x00) s then Some (filter (\<lambda>c. c \<noteq> CHR ''_'') s) else None)"

definition split_sign :: "string \<Rightarrow> bool \<times> string" where
  "split_sign s =
     (case s of
        c # cs \<Rightarrow> if c = CHR ''-'' then (True, cs) else if c = CHR ''+'' then (False, cs)
                  else (False, s)
      | [] \<Rightarrow> (False, []))"

text \<open>
  The exponent part of a decimal literal: nothing, or \<open>e\<close>/\<open>E\<close>, an optional sign and
  at least one digit, up to the end of the text.
\<close>

definition parse_exponent :: "string \<Rightarrow> int option" where
  "parse_exponent s =
     (case s of
        [] \<Rightarrow> Some 0
      | c # cs \<Rightarrow>
          if c = CHR ''e'' \<or> c = CHR ''E'' then
            (case split_sign cs of
               (neg, ds) \<Rightarrow>
                 if ds \<noteq> [] \<and> list_all is_digit ds
                 then Some (if neg then - int (digits_value ds) else int (digits_value ds))
                 else None)
          else None)"

text \<open>
  An unsigned decimal literal: digits, an optional point and digits, with at least one
  digit before or after the point, then the exponent part.
\<close>

definition parse_decimal :: "string \<Rightarrow> real option" where
  "parse_decimal s =
     (let ip = takeWhile is_digit s;
          r1 = dropWhile is_digit s;
          has_point = (r1 \<noteq> [] \<and> hd r1 = CHR ''.'');
          fp = (if has_point then takeWhile is_digit (tl r1) else []);
          r2 = (if has_point then dropWhile is_digit (tl r1) else r1)
      in if ip = [] \<and> fp = [] then None
         else (case parse_exponent r2 of
                 None \<Rightarrow> None
               | Some e \<Rightarrow>
                   let m = real (digits_value (ip @ fp));
                       k = e - int (length fp)
                   in Some (if 0 \<le> k then m * 10 ^ nat k else m / 10 ^ nat (- k))))"

text \<open>
  \<open>float(b)\<close> on bytes: surrounding whitespace is dropped, \<open>None\<close> stands for the
  \<open>ValueError\<close>. Besides decimal literals it accepts, in any letter case and with an
  optional sign, \<open>inf\<close>, \<open>infinity\<close> and \<open>nan\<close>.
\<close>

definition py_float :: "bytes \<Rightarrow> pyfloat option" where
  "py_float b =
     (case strip_underscores (bytes_strip b) of
        None \<Rightarrow> None
      | Some s \<Rightarrow>
          (case split_sign s of
             (neg, body) \<Rightarrow>
               let low = map to_lower body in
               if low = ''inf'' \<or> low = ''infinity'' then Some (if neg then NInf else PInf)
               else if low = ''nan'' then Some NaN
               else (case parse_decimal body of
                       None \<Rightarrow> None
                     | Some r \<Rightarrow> Some (Fin (if neg then - r else r)))))"

text \<open>
  \<open>int(s)\<close> on a text in base ten: surrounding whitespace is dropped, then an optional
  sign and digits (underscores between digits allowed). \<open>None\<close> stands for the
  \<open>ValueError\<close>. The text is taken as ASCII.
\<close>

definition is_space_str :: "char \<Rightarrow> bool" where
  "is_space_str c = (is_space c \<or> of_char c \<in> {28, 29, 30, 31 :: nat})"

definition str_strip :: "string \<Rightarrow> string" where
  "str_strip b = rev (dropWhile is_space_str (rev (dropWhile is_space_str b)))"

definition py_int :: "string \<Rightarrow> int option" where
  "py_int t =
     (case strip_underscores (str_strip t) of
        None \<Rightarrow> None
      | Some s \<Rightarrow>
          (case split_sign s of
             (neg, ds) \<Rightarrow>
               if ds \<noteq> [] \<and> list_all is_digit ds
               then Some (if neg then - int (digits_value ds) else int (digits_value ds))
               else None))"

section \<open>The serial reading thread\<close>

record SerialConfig =
  port :: string
  baudrate :: int
  timeout :: real

text \<open>
  What \<open>SerialReader.run\<close> puts on its queue: a parsed value, or the exception of a
  failed open or read (kept as its text).
\<close>

datatype msg = Sample pyfloat | TerminalError string

text \<open>
  The thread's surroundings, one event per turn of the \<open>while\<close> loop: the stop event
  was found set; or it was clear and \<open>readline\<close> returned bytes (none on a timeout),
  raised a \<open>SerialException\<close>, or raised something else.
\<close>

datatype reader_event = StopSet | ReadLine bytes | ReadFault string | ReadCrash

datatype open_result = Opened | OpenFault string | OpenCrash

datatype reader_end = Running | Finished | Died

record port_script =
  open_outcome :: open_result
  flush_raises :: bool
  events :: "reader_event list"

text \<open>
  The \<open>while not self._stop_event.is_set()\<close> loop. The result is the list of messages
  put on the queue, oldest first, and how the loop stands when the events run out:
  still running, left (by the stop event or after a \<open>SerialException\<close>), or killed by
  an exception that \<open>run\<close> does not catch.
\<close>

fun read_loop :: "reader_event list \<Rightarrow> msg list \<times> reader_end" where
  "read_loop [] = ([], Running)"
| "read_loop (StopSet # _) = ([], Finished)"
| "read_loop (ReadFault e # _) = ([TerminalError e], Finished)"
| "read_loop (ReadCrash # _) = ([], Died)"
| "read_loop (ReadLine line # evs) =
     (if line = [] then read_loop evs
      else (case py_float (bytes_strip line) of
              Some v \<Rightarrow> (case read_loop evs of (ms, e) \<Rightarrow> (Sample v # ms, e))
            | None \<Rightarrow> read_loop evs))"

definition run :: "port_script \<Rightarrow> msg list \<times> reader_end" where
  "run p =
     (case open_outcome p of
        OpenFault e \<Rightarrow> ([TerminalError e], Finished)
      | OpenCrash \<Rightarrow> ([], Died)
      | Opened \<Rightarrow> if flush_raises p then ([], Died) else read_loop (events p))"

section \<open>The main window\<close>

record SerialReader =
  r_config :: SerialConfig
  r_data_queue :: nat
  r_stop_event :: bool

datatype dialog = Warning string string | Critical string string

datatype py_error = IndexError

text \<open>
  The fields of \<open>SerialPlotter\<close> that the start, stop, timer and plot methods use.
  Objects shared between the window and its threads live in two stores: \<open>queues\<close> maps
  the address of a \<open>queue.Queue\<close> to its content (oldest first), \<open>threads\<close> lists every
  \<open>SerialReader\<close> constructed so far, a reader's position being its identity.
  \<open>dialogs\<close> records the message boxes shown, \<open>xlim\<close> and \<open>ylim\<close> the last
  arguments of \<open>set_xlim\<close> and \<open>set_ylim\<close>, \<open>clock_reads\<close> the number of calls of
  \<open>time.time()\<close> so far; the \<open>k\<close>-th call returns \<open>clk k\<close>.
\<close>

record SerialPlotter =
  queues :: "nat \<Rightarrow> msg list"
  threads :: "SerialReader list"
  data_queue :: nat
  data :: "pyfloat list"
  time :: "real list"
  start_time :: real
  reader :: "nat option"
  timer :: nat
  start_btn_enabled :: bool
  stop_btn_enabled :: bool
  dialogs :: "dialog list"
  draw_idle_calls :: nat
  line_data :: "real list \<times> pyfloat list"
  xlim :: "(real \<times> real) option"
  ylim :: "(pyfloat \<times> pyfloat) option"
  clock_reads :: nat

text \<open>\<open>SerialPlotter.__init__\<close>: the one place where a queue is created.\<close>

definition init :: "(nat \<Rightarrow> real) \<Rightarrow> nat \<Rightarrow> SerialPlotter" where
  "init clk timer_id =
     \<lparr> queues = (\<lambda>_. []), threads = [], data_queue = 0, data = [], time = [],
       start_time = clk 0, reader = None, timer = timer_id,
       start_btn_enabled = True, stop_btn_enabled = False, dialogs = [],
       draw_idle_calls = 0, line_data = ([], []), xlim = None, ylim = None,
       clock_reads = 1 \<rparr>"

text \<open>
  \<open>_start_reading\<close>, given the text of the port box and of the baud rate field.
\<close>

definition start_reading ::
  "(nat \<Rightarrow> real) \<Rightarrow> string \<Rightarrow> string \<Rightarrow> SerialPlotter \<Rightarrow> SerialPlotter" where
  "start_reading clk port_text baud_text s =
     (if port_text = [] then
        s\<lparr>dialogs := dialogs s @
            [Warning ''No Port Selected'' ''Please select a serial port to start.'']\<rparr>
      else (case py_int baud_text of
              None \<Rightarrow>
                s\<lparr>dialogs := dialogs s @
                    [Critical ''Invalid Baudrate'' ''Baudrate must be an integer.'']\<rparr>
            | Some baud \<Rightarrow>
                s\<lparr>threads := threads s @
                     [\<lparr>r_config = \<lparr>port = port_text, baudrate = baud, timeout = 1\<rparr>,
                       r_data_queue = data_queue s, r_stop_event = False\<rparr>],
                  reader := Some (length (threads s)),
                  start_btn_enabled := False,
                  stop_btn_enabled := True,
                  start_time := clk (clock_reads s),
                  clock_reads := Suc (clock_reads s),
                  data := [],
                  time := []\<rparr>))"

definition start_ok :: "string \<Rightarrow> string \<Rightarrow> bool" where
  "start_ok port_text baud_text = (port_text \<noteq> [] \<and> py_int baud_text \<noteq> None)"

text \<open>
  \<open>_stop_reading\<close>: the reader held, if any, is told to stop and let go. The
  \<open>join\<close> waits for that thread for at most a second and writes no field of the
  window.
\<close>

definition stop_reading :: "SerialPlotter \<Rightarrow> SerialPlotter" where
  "stop_reading s =
     (let s1 = (case reader s of
                  Some i \<Rightarrow>
                    s\<lparr>threads := (threads s)[i := (threads s ! i)\<lparr>r_stop_event := True\<rparr>],
                      reader := None\<rparr>
                | None \<Rightarrow> s)
      in s1\<lparr>start_btn_enabled := True, stop_btn_enabled := False\<rparr>)"

text \<open>The \<open>while not self._data_queue.empty()\<close> loop of \<open>timerEvent\<close>.\<close>

function poll_loop :: "(nat \<Rightarrow> real) \<Rightarrow> SerialPlotter \<Rightarrow> SerialPlotter" where
  "poll_loop clk s =
     (case queues s (data_queue s) of
        [] \<Rightarrow> s
      | item # rest \<Rightarrow>
          (let s1 = s\<lparr>queues := (queues s)(data_queue s := rest)\<rparr> in
           case item of
             TerminalError e \<Rightarrow>
               poll_loop clk
                 (stop_reading (s1\<lparr>dialogs := dialogs s1 @ [Critical ''Serial Error'' e]\<rparr>))
           | Sample v \<Rightarrow>
               poll_loop clk
                 (s1\<lparr>time := time s1 @ [clk (clock_reads s1) - start_time s1],
                     data := data s1 @ [v],
                     clock_reads := Suc (clock_reads s1)\<rparr>)))"
  by pat_completeness auto
termination
  by (relation "measure (\<lambda>(clk, s). length (queues s (data_queue s)))")
     (auto simp: stop_reading_def Let_def split: option.splits)

definition timerEvent :: "(nat \<Rightarrow> real) \<Rightarrow> nat \<Rightarrow> SerialPlotter \<Rightarrow> SerialPlotter" where
  "timerEvent clk timer_id s =
     (if timer_id = timer s then
        (let s' = poll_loop clk s in
         if data s' \<noteq> [] then s'\<lparr>draw_idle_calls := Suc (draw_idle_calls s')\<rparr> else s')
      else s)"

text \<open>
  \<open>_update_plot\<close>. \<open>self._time[-1]\<close> raises \<open>IndexError\<close> on an empty list; the two
  builtins \<open>min\<close> and \<open>max\<close> run on a list known to be non-empty.
\<close>

definition update_plot :: "SerialPlotter \<Rightarrow> py_error + SerialPlotter" where
  "update_plot s =
     (case data s of
        [] \<Rightarrow> Inr s
      | d # ds \<Rightarrow>
          (case time s of
             [] \<Rightarrow> Inl IndexError
           | _ # _ \<Rightarrow>
               (let t = last (time s);
                    ymin = py_min d ds;
                    ymax = py_max d ds;
                    padding = (if py_eq ymin ymax then Fin 1
                               else py_mul (Fin (5 / 100)) (py_sub ymax ymin))
                in Inr (s\<lparr>line_data := (time s, data s),
                          xlim := Some (if t - 30 > 0 then t - 30 else 0, t + 1),
                          ylim := Some (py_sub ymin padding, py_add ymax padding)\<rparr>))))"

definition closeEvent :: "SerialPlotter \<Rightarrow> SerialPlotter" where
  "closeEvent s = stop_reading s"

text \<open>
  What can happen to the window, one event at a time on the GUI thread: a click on Start
  or Stop (a disabled button delivers no click), a timer event, a call of the animation,
  the close of the window; and, from a reader thread, a \<open>put\<close> on that reader's queue.
  A reader may put at any moment of its life, also after it has been told to stop, since
  it looks at its stop event only once per turn of its loop. A message box is recorded
  when it is shown; the events that Qt may deliver while the box is open are not
  modelled apart.
\<close>

datatype event =
  StartClicked string string
| StopClicked
| TimerEvent nat
| Animate
| Put nat msg
| CloseEvent

definition put :: "nat \<Rightarrow> msg \<Rightarrow> SerialPlotter \<Rightarrow> SerialPlotter" where
  "put i m s =
     (if i < length (threads s) then
        (let q = r_data_queue (threads s ! i) in s\<lparr>queues := (queues s)(q := queues s q @ [m])\<rparr>)
      else s)"

fun fire :: "(nat \<Rightarrow> real) \<Rightarrow> event \<Rightarrow> SerialPlotter \<Rightarrow> py_error + SerialPlotter" where
  "fire clk (StartClicked p b) s =
     Inr (if start_btn_enabled s then start_reading clk p b s else s)"
| "fire clk StopClicked s = Inr (if stop_btn_enabled s then stop_reading s else s)"
| "fire clk (TimerEvent i) s = Inr (timerEvent clk i s)"
| "fire clk Animate s = update_plot s"
| "fire clk (Put i m) s = Inr (put i m s)"
| "fire clk CloseEvent s = Inr (closeEvent s)"

fun exec :: "(nat \<Rightarrow> real) \<Rightarrow> event list \<Rightarrow> SerialPlotter \<Rightarrow> py_error + SerialPlotter" where
  "exec clk [] s = Inr s"
| "exec clk (ev # evs) s =
     (case fire clk ev s of Inl err \<Rightarrow> Inl err | Inr s' \<Rightarrow> exec clk evs s')"

section \<open>Notions of the specification\<close>

text \<open>
  The specification's test on a line, in its own words: the line parses as a finite
  float.
\<close>

definition parses_as_finite_float :: "bytes \<Rightarrow> bool" where
  "parses_as_finite_float line =
     (case py_float (bytes_strip line) of Some v \<Rightarrow> is_finite v | None \<Rightarrow> False)"

text \<open>The Samples and the Terminal Errors of a batch of messages, in their order.\<close>

fun samples_of :: "msg list \<Rightarrow> pyfloat list" where
  "samples_of [] = []"
| "samples_of (Sample v # q) = v # samples_of q"
| "samples_of (TerminalError e # q) = samples_of q"

fun errors_of :: "msg list \<Rightarrow> string list" where
  "errors_of [] = []"
| "errors_of (Sample v # q) = errors_of q"
| "errors_of (TerminalError e # q) = e # errors_of q"

text \<open>
  What holds of the window between any two events: each value has its timestamp, the
  Start button is enabled exactly when no reader is held and the Stop button exactly when
  one is, the window and every reader ever made share the queue made by \<open>__init__\<close>,
  and every reader but the one held has been told to stop.
\<close>

fun others_stopped :: "nat option \<Rightarrow> SerialReader list \<Rightarrow> bool" where
  "others_stopped None ts = list_all r_stop_event ts"
| "others_stopped (Some i) ts =
     (i < length ts \<and> list_all r_stop_event (take i ts)
      \<and> list_all r_stop_event (drop (Suc i) ts))"

definition window_inv :: "SerialPlotter \<Rightarrow> bool" where
  "window_inv s =
     (length (time s) = length (data s)
      \<and> start_btn_enabled s = (reader s = None)
      \<and> stop_btn_enabled s = (reader s \<noteq> None)
      \<and> data_queue s = 0
      \<and> list_all (\<lambda>r. r_data_queue r = 0) (threads s)
      \<and> others_stopped (reader s) (threads s))"


subsection \<open>Example runs\<close>

text \<open>
  A window whose timer has the identifier 7 and whose clock shows \<open>k\<close> at its \<open>k\<close>-th
  reading. \<open>first_session\<close>: Start has been clicked once. \<open>second_session\<close>: the first
  reader has put the value 1.0 on its queue, then Stop and Start have been clicked, with
  no timer event in between. \<open>nan_buffer\<close>: in the first session the reader has put
  the values of the lines \<open>1.0\<close> and \<open>nan\<close> on its queue, and a timer event has moved
  them to the buffer. \<open>error_batch\<close>: in the first session the reader has put a
  value, a Terminal Error and another value on its queue, and no timer event has come
  yet.
\<close>

definition first_session :: SerialPlotter where
  "first_session = start_reading real ''COM1'' ''9600'' (init real 7)"

definition second_session :: SerialPlotter where
  "second_session =
     start_reading real ''COM1'' ''9600''
       (stop_reading (put 0 (Sample (Fin 1)) first_session))"

definition nan_buffer :: SerialPlotter where
  "nan_buffer =
     timerEvent real 7 (put 0 (Sample NaN) (put 0 (Sample (Fin 1)) first_session))"

definition error_batch :: SerialPlotter where
  "error_batch =
     put 0 (Sample (Fin 2)) (put 0 (TerminalError ''gone'') (put 0 (Sample (Fin 1)) first_session))"

section \<open>The reader's messages\<close>

lemmas parse_defs = py_float_def bytes_strip_def is_space_def strip_underscores_def
  split_sign_def to_lower_def is_digit_def parse_decimal_def parse_exponent_def
  digits_value_def py_int_def str_strip_def is_space_str_def

lemma py_float_empty: "py_float (bytes_strip []) = None"
  by (simp add: parse_defs)

text \<open>
  C1, as stated, fails: the line \<open>nan\<close> does not parse as a finite float, and the
  reader puts a Sample for it on the queue.
\<close>

theorem C1_nan_line_is_emitted:
  "fst (read_loop [ReadLine ''nan\<newline>'']) = [Sample NaN]
   \<and> \<not> parses_as_finite_float ''nan\<newline>''"
  by (simp add: parses_as_finite_float_def parse_defs)

text \<open>
  C1, amended: for every line the reader reads, a Sample is put on the queue if and only
  if \<open>float(line.strip())\<close> succeeds, finite or not; the Samples come in the order of
  the lines, a line that \<open>float\<close> rejects (an empty read included) leaves no message,
  and the loop goes on with the next read.
\<close>

theorem C1_sample_iff_float_accepts:
  "read_loop (map ReadLine ls @ rest) =
     (map Sample (List.map_filter (\<lambda>l. py_float (bytes_strip l)) ls) @ fst (read_loop rest),
      snd (read_loop rest))"
proof (induction ls)
  case Nil
  show ?case by (simp add: List.map_filter_simps)
next
  case (Cons l ls)
  show ?case
  proof (cases "l = []")
    case True
    with Cons show ?thesis by (simp add: List.map_filter_simps py_float_empty)
  next
    case False
    with Cons show ?thesis
      by (cases "py_float (bytes_strip l)") (simp_all add: List.map_filter_simps)
  qed
qed

theorem C1_sample_iff_float_accepts_witness:
  "read_loop (map ReadLine [''1.0\<newline>'', ''garbage\<newline>'', [], ''inf\<newline>'']
              @ [ReadFault ''gone''])
   = ([Sample (Fin 1), Sample PInf, TerminalError ''gone''], Finished)"
  using C1_sample_iff_float_accepts
          [of "[''1.0\<newline>'', ''garbage\<newline>'', [], ''inf\<newline>'']" "[ReadFault ''gone'']"]
  by (simp add: parse_defs)

lemma read_loop_shape:
  "(\<exists>vs. read_loop evs = (map Sample vs, Running) \<or> read_loop evs = (map Sample vs, Finished)
       \<or> read_loop evs = (map Sample vs, Died))
   \<or> (\<exists>vs e. read_loop evs = (map Sample vs @ [TerminalError e], Finished))"
proof (induction evs)
  case Nil
  show ?case by simp
next
  case (Cons ev evs)
  show ?case
  proof (cases ev)
    case StopSet
    then show ?thesis by simp
  next
    case (ReadFault e)
    then have "read_loop (ev # evs) = (map Sample [] @ [TerminalError e], Finished)" by simp
    then show ?thesis by blast
  next
    case ReadCrash
    then show ?thesis by simp
  next
    case (ReadLine line)
    show ?thesis
    proof (cases "line = [] \<or> py_float (bytes_strip line) = None")
      case True
      with Cons ReadLine show ?thesis by auto
    next
      case False
      then obtain v where v: "line \<noteq> []" "py_float (bytes_strip line) = Some v" by auto
      from Cons show ?thesis
      proof (elim disjE exE)
        fix vs assume "read_loop evs = (map Sample vs, Running)"
        with v ReadLine have "read_loop (ev # evs) = (map Sample (v # vs), Running)" by simp
        then show ?thesis by blast
      next
        fix vs assume "read_loop evs = (map Sample vs, Finished)"
        with v ReadLine have "read_loop (ev # evs) = (map Sample (v # vs), Finished)" by simp
        then show ?thesis by blast
      next
        fix vs assume "read_loop evs = (map Sample vs, Died)"
        with v ReadLine have "read_loop (ev # evs) = (map Sample (v # vs), Died)" by simp
        then show ?thesis by blast
      next
        fix vs e assume "read_loop evs = (map Sample vs @ [TerminalError e], Finished)"
        with v ReadLine
        have "read_loop (ev # evs) = (map Sample (v # vs) @ [TerminalError e], Finished)"
          by simp
        then show ?thesis by blast
      qed
    qed
  qed
qed

text \<open>
  C5: whatever the port does, the messages of one run of the reader are Samples only, or
  Samples followed by exactly one Terminal Error, which is then the last message, the
  loop being left.
\<close>

theorem C5_terminal_error_once_and_last:
  "(\<exists>vs. fst (run p) = map Sample vs)
   \<or> (\<exists>vs e. fst (run p) = map Sample vs @ [TerminalError e] \<and> snd (run p) = Finished)"
proof (cases "open_outcome p")
  case Opened
  show ?thesis
  proof (cases "flush_raises p")
    case True
    with Opened have "fst (run p) = map Sample []" by (simp add: run_def)
    then show ?thesis by blast
  next
    case False
    with Opened have r: "run p = read_loop (events p)" by (simp add: run_def)
    from read_loop_shape [of "events p"] show ?thesis unfolding r by fastforce
  qed
next
  case (OpenFault e)
  then have "fst (run p) = map Sample [] @ [TerminalError e] \<and> snd (run p) = Finished"
    by (simp add: run_def)
  then show ?thesis by blast
next
  case OpenCrash
  then have "fst (run p) = map Sample []" by (simp add: run_def)
  then show ?thesis by blast
qed

theorem C5_terminal_error_once_and_last_witness:
  "run \<lparr>open_outcome = Opened, flush_raises = False,
        events = [ReadLine ''1.0\<newline>'', ReadFault ''gone'', ReadLine ''2.0\<newline>'']\<rparr>
     = ([Sample (Fin 1), TerminalError ''gone''], Finished)
   \<and> ((\<exists>vs. fst (run \<lparr>open_outcome = Opened, flush_raises = False,
              events = [ReadLine ''1.0\<newline>'', ReadFault ''gone'', ReadLine ''2.0\<newline>'']\<rparr>)
            = map Sample vs)
      \<or> (\<exists>vs e. fst (run \<lparr>open_outcome = Opened, flush_raises = False,
              events = [ReadLine ''1.0\<newline>'', ReadFault ''gone'', ReadLine ''2.0\<newline>'']\<rparr>)
            = map Sample vs @ [TerminalError e]
          \<and> snd (run \<lparr>open_outcome = Opened, flush_raises = False,
              events = [ReadLine ''1.0\<newline>'', ReadFault ''gone'', ReadLine ''2.0\<newline>'']\<rparr>)
            = Finished))"
proof
  show "run \<lparr>open_outcome = Opened, flush_raises = False,
        events = [ReadLine ''1.0\<newline>'', ReadFault ''gone'', ReadLine ''2.0\<newline>'']\<rparr>
     = ([Sample (Fin 1), TerminalError ''gone''], Finished)"
    by (simp add: run_def parse_defs)
next
  show "(\<exists>vs. fst (run \<lparr>open_outcome = Opened, flush_raises = False,
              events = [ReadLine ''1.0\<newline>'', ReadFault ''gone'', ReadLine ''2.0\<newline>'']\<rparr>)
            = map Sample vs)
      \<or> (\<exists>vs e. fst (run \<lparr>open_outcome = Opened, flush_raises = False,
              events = [ReadLine ''1.0\<newline>'', ReadFault ''gone'', ReadLine ''2.0\<newline>'']\<rparr>)
            = map Sample vs @ [TerminalError e]
          \<and> snd (run \<lparr>open_outcome = Opened, flush_raises = False,
              events = [ReadLine ''1.0\<newline>'', ReadFault ''gone'', ReadLine ''2.0\<newline>'']\<rparr>)
            = Finished)"
    by (rule C5_terminal_error_once_and_last)
qed

section \<open>The poll loop of the timer event\<close>

declare poll_loop.simps [simp del]

lemma stop_reading_fields [simp]:
  "queues (stop_reading s) = queues s"
  "data_queue (stop_reading s) = data_queue s"
  "data (stop_reading s) = data s"
  "time (stop_reading s) = time s"
  "start_time (stop_reading s) = start_time s"
  "clock_reads (stop_reading s) = clock_reads s"
  "dialogs (stop_reading s) = dialogs s"
  "timer (stop_reading s) = timer s"
  "reader (stop_reading s) = None"
  "start_btn_enabled (stop_reading s) = True"
  "stop_btn_enabled (stop_reading s) = False"
  "length (threads (stop_reading s)) = length (threads s)"
  by (simp_all add: stop_reading_def Let_def split: option.splits)

lemma stop_reading_idem: "stop_reading (stop_reading s) = stop_reading s"
  by (simp add: stop_reading_def Let_def split: option.splits)

lemma stop_reading_threads_none:
  "reader s = None \<Longrightarrow> threads (stop_reading s) = threads s"
  by (simp add: stop_reading_def)

lemma poll_loop_Nil: "queues s (data_queue s) = [] \<Longrightarrow> poll_loop clk s = s"
  by (simp add: poll_loop.simps [of clk s])

lemma poll_loop_Sample:
  "queues s (data_queue s) = Sample v # rest \<Longrightarrow>
   poll_loop clk s =
     poll_loop clk (s\<lparr>queues := (queues s)(data_queue s := rest),
                      time := time s @ [clk (clock_reads s) - start_time s],
                      data := data s @ [v],
                      clock_reads := Suc (clock_reads s)\<rparr>)"
  by (simp add: poll_loop.simps [of clk s])

lemma poll_loop_Error:
  "queues s (data_queue s) = TerminalError e # rest \<Longrightarrow>
   poll_loop clk s =
     poll_loop clk (stop_reading (s\<lparr>queues := (queues s)(data_queue s := rest),
                      dialogs := dialogs s @ [Critical ''Serial Error'' e]\<rparr>))"
  by (simp add: poll_loop.simps [of clk s])

lemma poll_loop_effect:
  "queues s (data_queue s) = q \<Longrightarrow>
   queues (poll_loop clk s) a = (if a = data_queue s then [] else queues s a)
   \<and> data_queue (poll_loop clk s) = data_queue s
   \<and> data (poll_loop clk s) = data s @ samples_of q
   \<and> time (poll_loop clk s) =
       time s @ map (\<lambda>k. clk (clock_reads s + k) - start_time s) [0..<length (samples_of q)]
   \<and> dialogs (poll_loop clk s) = dialogs s @ map (Critical ''Serial Error'') (errors_of q)
   \<and> start_time (poll_loop clk s) = start_time s
   \<and> timer (poll_loop clk s) = timer s
   \<and> clock_reads (poll_loop clk s) = clock_reads s + length (samples_of q)"
proof (induction q arbitrary: s)
  case Nil
  then show ?case by (simp add: poll_loop_Nil)
next
  case (Cons item rest)
  show ?case
  proof (cases item)
    case (Sample v)
    let ?s' = "s\<lparr>queues := (queues s)(data_queue s := rest),
                  time := time s @ [clk (clock_reads s) - start_time s],
                  data := data s @ [v],
                  clock_reads := Suc (clock_reads s)\<rparr>"
    have q: "queues ?s' (data_queue ?s') = rest" by simp
    have p: "poll_loop clk s = poll_loop clk ?s'"
      using Cons.prems Sample by (simp add: poll_loop_Sample)
    have m: "map (\<lambda>k. clk (clock_reads s + k) - start_time s) [0..<Suc n]
          = (clk (clock_reads s) - start_time s)
            # map (\<lambda>k. clk (Suc (clock_reads s) + k) - start_time s) [0..<n]" for n
      by (simp add: upt_conv_Cons map_Suc_upt [symmetric] del: upt_Suc)
    from Cons.IH [OF q] show ?thesis
      unfolding p using Sample by (simp add: m del: upt_Suc)
  next
    case (TerminalError e)
    let ?s' = "stop_reading (s\<lparr>queues := (queues s)(data_queue s := rest),
                    dialogs := dialogs s @ [Critical ''Serial Error'' e]\<rparr>)"
    have q: "queues ?s' (data_queue ?s') = rest" by simp
    have p: "poll_loop clk s = poll_loop clk ?s'"
      using Cons.prems TerminalError by (simp add: poll_loop_Error)
    from Cons.IH [OF q] show ?thesis
      unfolding p using TerminalError by simp
  qed
qed

lemma poll_loop_no_error:
  "queues s (data_queue s) = q \<Longrightarrow> errors_of q = [] \<Longrightarrow>
   reader (poll_loop clk s) = reader s \<and> threads (poll_loop clk s) = threads s
   \<and> start_btn_enabled (poll_loop clk s) = start_btn_enabled s
   \<and> stop_btn_enabled (poll_loop clk s) = stop_btn_enabled s"
proof (induction q arbitrary: s)
  case Nil
  then show ?case by (simp add: poll_loop_Nil)
next
  case (Cons item rest)
  from Cons.prems obtain v where item: "item = Sample v" by (cases item) auto
  let ?s' = "s\<lparr>queues := (queues s)(data_queue s := rest),
                time := time s @ [clk (clock_reads s) - start_time s],
                data := data s @ [v],
                clock_reads := Suc (clock_reads s)\<rparr>"
  have q: "queues ?s' (data_queue ?s') = rest" by simp
  have p: "poll_loop clk s = poll_loop clk ?s'"
    using Cons.prems item by (simp add: poll_loop_Sample)
  from Cons.IH [OF q] Cons.prems item show ?case unfolding p by simp
qed

lemma poll_loop_stopped:
  "queues s (data_queue s) = q \<Longrightarrow> reader s = None \<Longrightarrow> start_btn_enabled s \<Longrightarrow>
   \<not> stop_btn_enabled s \<Longrightarrow>
   reader (poll_loop clk s) = None \<and> threads (poll_loop clk s) = threads s
   \<and> start_btn_enabled (poll_loop clk s) \<and> \<not> stop_btn_enabled (poll_loop clk s)"
proof (induction q arbitrary: s)
  case Nil
  then show ?case by (simp add: poll_loop_Nil)
next
  case (Cons item rest)
  show ?case
  proof (cases item)
    case (Sample v)
    let ?s' = "s\<lparr>queues := (queues s)(data_queue s := rest),
                  time := time s @ [clk (clock_reads s) - start_time s],
                  data := data s @ [v],
                  clock_reads := Suc (clock_reads s)\<rparr>"
    have q: "queues ?s' (data_queue ?s') = rest" by simp
    have p: "poll_loop clk s = poll_loop clk ?s'"
      using Cons.prems Sample by (simp add: poll_loop_Sample)
    from Cons.IH [OF q] Cons.prems show ?thesis unfolding p by simp
  next
    case (TerminalError e)
    let ?s0 = "s\<lparr>queues := (queues s)(data_queue s := rest),
                    dialogs := dialogs s @ [Critical ''Serial Error'' e]\<rparr>"
    have q: "queues (stop_reading ?s0) (data_queue (stop_reading ?s0)) = rest" by simp
    have p: "poll_loop clk s = poll_loop clk (stop_reading ?s0)"
      using Cons.prems TerminalError by (simp add: poll_loop_Error)
    have t: "threads (stop_reading ?s0) = threads s"
      using Cons.prems by (simp add: stop_reading_threads_none)
    from Cons.IH [OF q] t show ?thesis unfolding p by simp
  qed
qed

lemma poll_loop_error:
  "queues s (data_queue s) = q \<Longrightarrow> errors_of q \<noteq> [] \<Longrightarrow>
   reader (poll_loop clk s) = None \<and> threads (poll_loop clk s) = threads (stop_reading s)
   \<and> start_btn_enabled (poll_loop clk s) \<and> \<not> stop_btn_enabled (poll_loop clk s)"
proof (induction q arbitrary: s)
  case Nil
  then show ?case by simp
next
  case (Cons item rest)
  show ?case
  proof (cases item)
    case (Sample v)
    let ?s' = "s\<lparr>queues := (queues s)(data_queue s := rest),
                  time := time s @ [clk (clock_reads s) - start_time s],
                  data := data s @ [v],
                  clock_reads := Suc (clock_reads s)\<rparr>"
    have q: "queues ?s' (data_queue ?s') = rest" by simp
    have p: "poll_loop clk s = poll_loop clk ?s'"
      using Cons.prems Sample by (simp add: poll_loop_Sample)
    have t: "threads (stop_reading ?s') = threads (stop_reading s)"
      by (simp add: stop_reading_def Let_def split: option.splits)
    from Cons.IH [OF q] Cons.prems Sample t show ?thesis unfolding p by simp
  next
    case (TerminalError e)
    let ?s0 = "s\<lparr>queues := (queues s)(data_queue s := rest),
                    dialogs := dialogs s @ [Critical ''Serial Error'' e]\<rparr>"
    have q: "queues (stop_reading ?s0) (data_queue (stop_reading ?s0)) = rest" by simp
    have p: "poll_loop clk s = poll_loop clk (stop_reading ?s0)"
      using Cons.prems TerminalError by (simp add: poll_loop_Error)
    have t: "threads (stop_reading ?s0) = threads (stop_reading s)"
      by (simp add: stop_reading_def Let_def split: option.splits)
    from poll_loop_stopped [OF q, of clk] t show ?thesis unfolding p by simp
  qed
qed

section \<open>What holds between events\<close>

lemma window_inv_init: "window_inv (init clk tid)"
  by (simp add: window_inv_def init_def)

lemma list_all_update_stop:
  "i < length ts \<Longrightarrow> list_all r_stop_event (take i ts) \<Longrightarrow>
   list_all r_stop_event (drop (Suc i) ts) \<Longrightarrow>
   list_all r_stop_event (ts[i := (ts ! i)\<lparr>r_stop_event := True\<rparr>])"
  by (simp add: upd_conv_take_nth_drop)

lemma list_all_update_queue:
  "list_all (\<lambda>r. r_data_queue r = 0) ts \<Longrightarrow>
   list_all (\<lambda>r. r_data_queue r = 0) (ts[i := (ts ! i)\<lparr>r_stop_event := True\<rparr>])"
proof (cases "i < length ts")
  case True
  assume a: "list_all (\<lambda>r. r_data_queue r = 0) ts"
  then have "list_all (\<lambda>r. r_data_queue r = 0) (take i ts @ ts ! i # drop (Suc i) ts)"
    using True by (simp add: id_take_nth_drop [symmetric])
  then show ?thesis using True by (simp add: upd_conv_take_nth_drop)
next
  case False
  assume "list_all (\<lambda>r. r_data_queue r = 0) ts"
  then show ?thesis using False by (simp add: list_update_beyond)
qed

lemma window_inv_stop: "window_inv s \<Longrightarrow> window_inv (stop_reading s)"
proof (cases "reader s")
  case None
  assume "window_inv s"
  with None show ?thesis by (simp add: window_inv_def stop_reading_def)
next
  case (Some i)
  assume "window_inv s"
  with Some show ?thesis
    by (simp add: window_inv_def stop_reading_def list_all_update_stop list_all_update_queue)
qed

lemma window_inv_start:
  "window_inv s \<Longrightarrow> reader s = None \<Longrightarrow> window_inv (start_reading clk p b s)"
  by (cases "py_int b") (simp_all add: window_inv_def start_reading_def)


lemma window_inv_poll: "window_inv s \<Longrightarrow> window_inv (poll_loop clk s)"
proof -
  assume inv: "window_inv s"
  define q where "q = queues s (data_queue s)"
  have eff: "data_queue (poll_loop clk s) = data_queue s"
    "length (time (poll_loop clk s)) = length (data (poll_loop clk s))"
    using poll_loop_effect [of s q clk 0] inv by (simp_all add: q_def window_inv_def)
  show ?thesis
  proof (cases "errors_of q = []")
    case True
    from poll_loop_no_error [of s q clk] True
    have "reader (poll_loop clk s) = reader s" "threads (poll_loop clk s) = threads s"
      "start_btn_enabled (poll_loop clk s) = start_btn_enabled s"
      "stop_btn_enabled (poll_loop clk s) = stop_btn_enabled s"
      by (simp_all add: q_def)
    with eff inv show ?thesis by (simp add: window_inv_def)
  next
    case False
    from poll_loop_error [of s q clk] False
    have e: "reader (poll_loop clk s) = None"
      "threads (poll_loop clk s) = threads (stop_reading s)"
      "start_btn_enabled (poll_loop clk s)" "\<not> stop_btn_enabled (poll_loop clk s)"
      by (simp_all add: q_def)
    from window_inv_stop [OF inv]
    have "list_all (\<lambda>r. r_data_queue r = 0) (threads (stop_reading s))"
      "list_all r_stop_event (threads (stop_reading s))"
      by (simp_all add: window_inv_def)
    with e eff inv show ?thesis by (simp add: window_inv_def)
  qed
qed

lemma window_inv_draw [simp]:
  "window_inv (s\<lparr>draw_idle_calls := n\<rparr>) = window_inv s"
  by (simp add: window_inv_def)

lemma window_inv_timer: "window_inv s \<Longrightarrow> window_inv (timerEvent clk i s)"
  using window_inv_poll [of s clk]
  by (simp add: timerEvent_def Let_def)

lemma window_inv_put: "window_inv s \<Longrightarrow> window_inv (put i m s)"
  by (simp add: put_def Let_def window_inv_def)

lemma window_inv_update_plot:
  "window_inv s \<Longrightarrow> \<exists>s'. update_plot s = Inr s' \<and> window_inv s'"
proof -
  assume inv: "window_inv s"
  show ?thesis
  proof (cases "data s")
    case Nil
    with inv show ?thesis by (simp add: update_plot_def)
  next
    case (Cons d ds)
    with inv obtain t ts where "time s = t # ts"
      by (cases "time s") (auto simp: window_inv_def)
    with Cons inv show ?thesis by (simp add: update_plot_def Let_def window_inv_def)
  qed
qed

lemma window_inv_fire:
  "window_inv s \<Longrightarrow> \<exists>s'. fire clk ev s = Inr s' \<and> window_inv s'"
proof (cases ev)
  case (StartClicked p b)
  assume inv: "window_inv s"
  show ?thesis
  proof (cases "start_btn_enabled s")
    case True
    with inv have "reader s = None" by (simp add: window_inv_def)
    with inv StartClicked True show ?thesis by (simp add: window_inv_start)
  next
    case False
    with inv StartClicked show ?thesis by simp
  qed
next
  case StopClicked
  assume "window_inv s"
  with StopClicked show ?thesis by (simp add: window_inv_stop)
next
  case (TimerEvent i)
  assume "window_inv s"
  with TimerEvent show ?thesis by (simp add: window_inv_timer)
next
  case Animate
  assume "window_inv s"
  with Animate show ?thesis by (simp add: window_inv_update_plot)
next
  case (Put i m)
  assume "window_inv s"
  with Put show ?thesis by (simp add: window_inv_put)
next
  case CloseEvent
  assume "window_inv s"
  with CloseEvent show ?thesis by (simp add: closeEvent_def window_inv_stop)
qed

lemma window_inv_exec:
  "window_inv s \<Longrightarrow> \<exists>s'. exec clk evs s = Inr s' \<and> window_inv s'"
proof (induction evs arbitrary: s)
  case Nil
  then show ?case by simp
next
  case (Cons ev evs)
  from window_inv_fire [OF Cons.prems, of clk ev]
  obtain s1 where s1: "fire clk ev s = Inr s1" "window_inv s1" by blast
  from Cons.IH [OF s1(2)] s1(1) show ?case by simp
qed

lemma reachable_inv: "\<exists>s. exec clk evs (init clk tid) = Inr s \<and> window_inv s"
  by (rule window_inv_exec [OF window_inv_init])

section \<open>Sessions and the sample buffer\<close>

lemmas eval_defs = init_def start_reading_def stop_reading_def timerEvent_def put_def
  closeEvent_def update_plot_def Let_def poll_loop.simps parse_defs

lemma len_fire:
  "length (time s) = length (data s) \<Longrightarrow>
   \<exists>s'. fire clk ev s = Inr s' \<and> length (time s') = length (data s')"
proof (cases ev)
  case (StartClicked p b)
  assume "length (time s) = length (data s)"
  with StartClicked show ?thesis
    by (cases "py_int b") (simp_all add: start_reading_def)
next
  case StopClicked
  assume "length (time s) = length (data s)"
  with StopClicked show ?thesis by simp
next
  case (TimerEvent i)
  assume "length (time s) = length (data s)"
  with TimerEvent poll_loop_effect [of s "queues s (data_queue s)" clk 0]
  show ?thesis by (simp add: timerEvent_def Let_def)
next
  case Animate
  assume len: "length (time s) = length (data s)"
  show ?thesis
  proof (cases "data s")
    case Nil
    with len Animate show ?thesis by (simp add: update_plot_def)
  next
    case (Cons d ds)
    with len obtain t ts where "time s = t # ts" by (cases "time s") auto
    with Cons len Animate show ?thesis by (simp add: update_plot_def Let_def)
  qed
next
  case (Put i m)
  assume "length (time s) = length (data s)"
  with Put show ?thesis by (simp add: put_def Let_def)
next
  case CloseEvent
  assume "length (time s) = length (data s)"
  with CloseEvent show ?thesis by (simp add: closeEvent_def)
qed

text \<open>
  C10: the timestamp list and the value list have the same length. Every event of the
  window (a start, a stop, a poll tick with all its appends, a redraw, a put, the close)
  keeps the two lengths equal and raises nothing when they are, and so they are equal in
  every state the window can reach from its construction.
\<close>

theorem C10_time_and_data_same_length:
  "(length (time s) = length (data s) \<longrightarrow>
      (\<exists>s'. fire clk ev s = Inr s' \<and> length (time s') = length (data s')))
   \<and> (\<exists>s. exec clk evs (init clk tid) = Inr s \<and> length (time s) = length (data s))"
proof
  show "length (time s) = length (data s) \<longrightarrow>
      (\<exists>s'. fire clk ev s = Inr s' \<and> length (time s') = length (data s'))"
    using len_fire by blast
next
  from reachable_inv [of clk evs tid]
  show "\<exists>s. exec clk evs (init clk tid) = Inr s \<and> length (time s) = length (data s)"
    by (auto simp: window_inv_def)
qed

theorem C10_time_and_data_same_length_witness:
  "\<exists>s. exec (\<lambda>k. real k)
          [StartClicked ''COM1'' ''9600'', Put 0 (Sample (Fin 1)), Put 0 (Sample NaN),
           TimerEvent 7, Animate] (init (\<lambda>k. real k) 7) = Inr s
       \<and> length (time s) = length (data s) \<and> data s = [Fin 1, NaN] \<and> time s = [1, 2]"
  using C10_time_and_data_same_length [of "init (\<lambda>k. real k) 7" "\<lambda>k. real k" Animate
          "[StartClicked ''COM1'' ''9600'', Put 0 (Sample (Fin 1)), Put 0 (Sample NaN),
           TimerEvent 7, Animate]" 7]
  by (simp add: eval_defs)

text \<open>
  C8: whatever the window's state before, a start that passes the two input checks leaves
  both lists of the sample buffer empty and sets \<open>_start_time\<close> to the clock value
  read during that start.
\<close>

theorem C8_start_resets_buffer_and_origin:
  "start_ok p b \<Longrightarrow>
   data (start_reading clk p b s) = [] \<and> time (start_reading clk p b s) = []
   \<and> start_time (start_reading clk p b s) = clk (clock_reads s)
   \<and> clock_reads (start_reading clk p b s) = Suc (clock_reads s)
   \<and> reader (start_reading clk p b s) = Some (length (threads s))"
  by (cases "py_int b") (simp_all add: start_ok_def start_reading_def)

theorem C8_start_resets_buffer_and_origin_witness:
  "start_ok ''COM1'' ''9600''
   \<and> data ((init (\<lambda>k. real k) 7)\<lparr>data := [Fin 3, Fin 4], time := [1 / 2, 1]\<rparr>) = [Fin 3, Fin 4]
   \<and> data (start_reading (\<lambda>k. real k) ''COM1'' ''9600''
        ((init (\<lambda>k. real k) 7)\<lparr>data := [Fin 3, Fin 4], time := [1 / 2, 1]\<rparr>)) = []
   \<and> time (start_reading (\<lambda>k. real k) ''COM1'' ''9600''
        ((init (\<lambda>k. real k) 7)\<lparr>data := [Fin 3, Fin 4], time := [1 / 2, 1]\<rparr>)) = []
   \<and> start_time (start_reading (\<lambda>k. real k) ''COM1'' ''9600''
        ((init (\<lambda>k. real k) 7)\<lparr>data := [Fin 3, Fin 4], time := [1 / 2, 1]\<rparr>)) = 1"
proof -
  have ok: "start_ok ''COM1'' ''9600''" by (simp add: start_ok_def parse_defs)
  from C8_start_resets_buffer_and_origin [OF ok, of "\<lambda>k. real k"
      "(init (\<lambda>k. real k) 7)\<lparr>data := [Fin 3, Fin 4], time := [1 / 2, 1]\<rparr>"] ok
  show ?thesis by (simp add: init_def)
qed

lemma stop_reading_noop:
  "window_inv s \<Longrightarrow> reader s = None \<Longrightarrow> stop_reading s = s"
  by (simp add: stop_reading_def window_inv_def)

text \<open>
  C9: \<open>_stop_reading\<close> is idempotent. In every state the window can reach, a stop with
  no reader held changes nothing; and in any state at all, a second stop right after a
  first one changes nothing more.
\<close>

theorem C9_stop_idempotent:
  "(\<exists>s. exec clk evs (init clk tid) = Inr s \<and> (reader s = None \<longrightarrow> stop_reading s = s))
   \<and> stop_reading (stop_reading s') = stop_reading s'"
proof
  from reachable_inv [of clk evs tid]
  show "\<exists>s. exec clk evs (init clk tid) = Inr s \<and> (reader s = None \<longrightarrow> stop_reading s = s)"
    using stop_reading_noop by blast
next
  show "stop_reading (stop_reading s') = stop_reading s'" by (rule stop_reading_idem)
qed

theorem C9_stop_idempotent_witness:
  "\<exists>s. exec (\<lambda>k. real k) [StartClicked ''COM1'' ''9600'', StopClicked] (init (\<lambda>k. real k) 7)
         = Inr s
       \<and> reader s = None \<and> stop_reading s = s"
  using C9_stop_idempotent [of "\<lambda>k. real k" "[StartClicked ''COM1'' ''9600'', StopClicked]" 7]
  by (simp add: eval_defs)

lemma start_click_ignored:
  "window_inv s \<Longrightarrow> reader s \<noteq> None \<Longrightarrow> fire clk (StartClicked p b) s = Inr s"
proof -
  assume "window_inv s" "reader s \<noteq> None"
  then have "\<not> start_btn_enabled s" by (simp add: window_inv_def)
  then show ?thesis by simp
qed

text \<open>
  C3, amended: \<open>_start_reading\<close> has no guard of its own against a session that is
  active; the guard is the Start button, which a successful start disables and only a
  stop enables again. In every state the window can reach through its events the Start
  button is enabled exactly when no reader is held, a click on Start while a reader is
  held is not delivered and changes nothing, and every reader but the one held has been
  told to stop.
\<close>

theorem C3_start_gated_by_button:
  "\<exists>s. exec clk evs (init clk tid) = Inr s
       \<and> start_btn_enabled s = (reader s = None)
       \<and> (reader s \<noteq> None \<longrightarrow> fire clk (StartClicked p b) s = Inr s)
       \<and> others_stopped (reader s) (threads s)"
proof -
  from reachable_inv [of clk evs tid]
  obtain s where s: "exec clk evs (init clk tid) = Inr s" "window_inv s" by blast
  from s(2) have i: "start_btn_enabled s = (reader s = None)"
    "others_stopped (reader s) (threads s)"
    by (simp_all add: window_inv_def)
  have j: "reader s \<noteq> None \<longrightarrow> fire clk (StartClicked p b) s = Inr s"
    by (rule impI) (rule start_click_ignored [OF s(2)])
  show ?thesis
    by (rule exI [of _ s]) (intro conjI s(1) i j)
qed


lemmas example_defs = first_session_def second_session_def error_batch_def nan_buffer_def

text \<open>
  C3, as stated, fails: called in the state that one click on Start has produced,
  \<open>_start_reading\<close> is not ignored. It makes a second reader and holds that one, while
  the first reader has not been told to stop.
\<close>

theorem C3_second_start_not_ignored:
  "exec real [StartClicked ''COM1'' ''9600''] (init real 7) = Inr first_session
   \<and> reader first_session = Some 0
   \<and> length (threads first_session) = 1
   \<and> reader (start_reading real ''COM2'' ''9600'' first_session) = Some 1
   \<and> length (threads (start_reading real ''COM2'' ''9600'' first_session)) = 2
   \<and> \<not> r_stop_event (threads (start_reading real ''COM2'' ''9600'' first_session) ! 0)
   \<and> \<not> r_stop_event (threads (start_reading real ''COM2'' ''9600'' first_session) ! 1)
   \<and> start_reading real ''COM2'' ''9600'' first_session \<noteq> first_session"
proof -
  have a: "exec real [StartClicked ''COM1'' ''9600''] (init real 7) = Inr first_session"
    by (simp add: first_session_def init_def)
  have b: "reader first_session = Some 0" "length (threads first_session) = 1"
    "reader (start_reading real ''COM2'' ''9600'' first_session) = Some 1"
    "length (threads (start_reading real ''COM2'' ''9600'' first_session)) = 2"
    "\<not> r_stop_event (threads (start_reading real ''COM2'' ''9600'' first_session) ! 0)"
    "\<not> r_stop_event (threads (start_reading real ''COM2'' ''9600'' first_session) ! 1)"
    by (simp_all add: example_defs eval_defs)
  have c: "start_reading real ''COM2'' ''9600'' first_session \<noteq> first_session"
  proof
    assume "start_reading real ''COM2'' ''9600'' first_session = first_session"
    then have "reader (start_reading real ''COM2'' ''9600'' first_session) = reader first_session"
      by (rule arg_cong)
    then show False unfolding b(1) b(3) by simp
  qed
  show ?thesis by (intro conjI a b c)
qed

theorem C3_start_gated_by_button_witness:
  "\<exists>s. exec real [StartClicked ''COM1'' ''9600'', Put 0 (Sample (Fin 1)), TimerEvent 7]
          (init real 7) = Inr s
       \<and> reader s = Some 0 \<and> \<not> start_btn_enabled s \<and> data s = [Fin 1]
       \<and> fire real (StartClicked ''COM2'' ''9600'') s = Inr s"
  using C3_start_gated_by_button [of real "[StartClicked ''COM1'' ''9600'', Put 0 (Sample (Fin 1)), TimerEvent 7]"
      7 "''COM2''" "''9600''"]
  by (simp add: eval_defs)

section \<open>The poll tick\<close>

text \<open>
  C4: a poll tick takes every message of the batch off the queue, once each and in
  order. Each Sample is appended to the buffer with its timestamp, each Terminal Error
  is shown in one \<open>Serial Error\<close> box, so a batch with one Terminal Error shows it
  exactly once; and if the batch holds a Terminal Error, \<open>_stop_reading\<close> has been
  called: no reader is held, the reader held before has been told to stop, the buttons
  are back to Start. The messages queued behind the error are appended like the others.
\<close>

theorem C4_poll_tick_consumes_batch_once:
  "queues s (data_queue s) = q \<Longrightarrow> s' = timerEvent clk (timer s) s \<Longrightarrow>
   queues s' (data_queue s') = []
   \<and> data s' = data s @ samples_of q
   \<and> time s' =
       time s @ map (\<lambda>k. clk (clock_reads s + k) - start_time s) [0..<length (samples_of q)]
   \<and> dialogs s' = dialogs s @ map (Critical ''Serial Error'') (errors_of q)
   \<and> (errors_of q \<noteq> [] \<longrightarrow>
        reader s' = None \<and> threads s' = threads (stop_reading s)
        \<and> start_btn_enabled s' \<and> \<not> stop_btn_enabled s')"
proof -
  assume q: "queues s (data_queue s) = q" and s': "s' = timerEvent clk (timer s) s"
  define p where "p = poll_loop clk s"
  have fields: "queues s' = queues p" "data_queue s' = data_queue p" "data s' = data p"
    "time s' = time p" "dialogs s' = dialogs p" "reader s' = reader p"
    "threads s' = threads p" "start_btn_enabled s' = start_btn_enabled p"
    "stop_btn_enabled s' = stop_btn_enabled p"
    by (simp_all add: s' p_def timerEvent_def Let_def)
  from poll_loop_effect [OF q, of clk "data_queue s"]
  have eff: "queues p (data_queue p) = []" "data p = data s @ samples_of q"
    "time p = time s @ map (\<lambda>k. clk (clock_reads s + k) - start_time s)
                [0..<length (samples_of q)]"
    "dialogs p = dialogs s @ map (Critical ''Serial Error'') (errors_of q)"
    by (simp_all add: p_def)
  have err: "errors_of q \<noteq> [] \<longrightarrow>
        reader p = None \<and> threads p = threads (stop_reading s)
        \<and> start_btn_enabled p \<and> \<not> stop_btn_enabled p"
    using poll_loop_error [OF q, of clk] by (simp add: p_def)
  show ?thesis unfolding fields by (intro conjI eff err)
qed

theorem C4_poll_tick_consumes_batch_once_witness:
  "queues error_batch (data_queue error_batch)
     = [Sample (Fin 1), TerminalError ''gone'', Sample (Fin 2)]
   \<and> reader error_batch = Some 0 \<and> dialogs error_batch = []
   \<and> queues (timerEvent real 7 error_batch) (data_queue (timerEvent real 7 error_batch)) = []
   \<and> data (timerEvent real 7 error_batch) = [Fin 1, Fin 2]
   \<and> time (timerEvent real 7 error_batch) = [1, 2]
   \<and> dialogs (timerEvent real 7 error_batch) = [Critical ''Serial Error'' ''gone'']
   \<and> reader (timerEvent real 7 error_batch) = None
   \<and> r_stop_event (threads (timerEvent real 7 error_batch) ! 0)"
proof -
  have q: "queues error_batch (data_queue error_batch)
     = [Sample (Fin 1), TerminalError ''gone'', Sample (Fin 2)]"
    by (simp add: example_defs eval_defs)
  have t: "timerEvent real 7 error_batch = timerEvent real (timer error_batch) error_batch"
    by (simp add: example_defs eval_defs)
  have f: "reader error_batch = Some 0" "dialogs error_batch = []" "data error_batch = []"
    "time error_batch = []" "clock_reads error_batch = 2" "start_time error_batch = 1"
    "r_stop_event (threads (stop_reading error_batch) ! 0)"
    by (simp_all add: example_defs eval_defs)
  from C4_poll_tick_consumes_batch_once [OF q t] f q show ?thesis by (simp add: upt_rec numeral_eq_Suc)
qed

section \<open>The queue between the reader and the window\<close>

text \<open>
  C2, as stated, fails: the reader of the second session is bound to the queue of the
  first, which still holds the value that the first reader put there; the next poll tick
  delivers that value into the buffer of the second session.
\<close>

theorem C2_stale_message_reaches_next_session:
  "exec real [StartClicked ''COM1'' ''9600'', Put 0 (Sample (Fin 1)), StopClicked,
              StartClicked ''COM1'' ''9600''] (init real 7) = Inr second_session
   \<and> reader second_session = Some 1
   \<and> data second_session = []
   \<and> r_data_queue (threads second_session ! 1) = r_data_queue (threads second_session ! 0)
   \<and> queues second_session (r_data_queue (threads second_session ! 1)) = [Sample (Fin 1)]
   \<and> reader (timerEvent real 7 second_session) = Some 1
   \<and> data (timerEvent real 7 second_session) = [Fin 1]"
proof -
  have a: "exec real [StartClicked ''COM1'' ''9600'', Put 0 (Sample (Fin 1)), StopClicked,
              StartClicked ''COM1'' ''9600''] (init real 7) = Inr second_session"
    by (simp add: example_defs eval_defs)
  have b: "reader second_session = Some 1" "data second_session = []"
    "r_data_queue (threads second_session ! 1) = r_data_queue (threads second_session ! 0)"
    "queues second_session (r_data_queue (threads second_session ! 1)) = [Sample (Fin 1)]"
    "reader (timerEvent real 7 second_session) = Some 1"
    "data (timerEvent real 7 second_session) = [Fin 1]"
    by (simp_all add: example_defs eval_defs)
  show ?thesis by (intro conjI a b)
qed


lemma start_reading_queue:
  "queues (start_reading clk p b s) = queues s"
  "data_queue (start_reading clk p b s) = data_queue s"
  "timer (start_reading clk p b s) = timer s"
  by (cases "py_int b"; simp add: start_reading_def)+

lemma start_reading_bound:
  "start_ok p b \<Longrightarrow>
   r_data_queue (last (threads (start_reading clk p b s))) = data_queue s
   \<and> data (start_reading clk p b s) = []"
  by (cases "py_int b") (simp_all add: start_ok_def start_reading_def)

text \<open>
  C2, amended: the queue is made once, by \<open>__init__\<close>. In every state the window can
  reach, the window and every reader ever constructed are bound to that one queue. A
  start makes a new reader, bound to the window's queue as it is: it neither replaces the
  queue nor empties it, so the Samples still queued at a successful start are what the
  next poll tick appends to the buffer of the new session.
\<close>

theorem C2_one_queue_for_all_sessions:
  "(\<exists>s. exec clk evs (init clk tid) = Inr s
        \<and> data_queue s = data_queue (init clk tid)
        \<and> list_all (\<lambda>r. r_data_queue r = data_queue s) (threads s))
   \<and> queues (start_reading clk p b s') = queues s'
   \<and> data_queue (start_reading clk p b s') = data_queue s'
   \<and> (start_ok p b \<longrightarrow>
        r_data_queue (last (threads (start_reading clk p b s'))) = data_queue s'
        \<and> data (timerEvent clk (timer s') (start_reading clk p b s'))
            = samples_of (queues s' (data_queue s')))"
proof -
  from reachable_inv [of clk evs tid]
  obtain s where s: "exec clk evs (init clk tid) = Inr s" "window_inv s" by blast
  from s(2) have i: "data_queue s = data_queue (init clk tid)"
    "list_all (\<lambda>r. r_data_queue r = data_queue s) (threads s)"
    by (simp_all add: window_inv_def init_def)
  have a: "\<exists>s. exec clk evs (init clk tid) = Inr s
        \<and> data_queue s = data_queue (init clk tid)
        \<and> list_all (\<lambda>r. r_data_queue r = data_queue s) (threads s)"
    by (rule exI [of _ s]) (intro conjI s(1) i)
  have c: "start_ok p b \<longrightarrow>
        r_data_queue (last (threads (start_reading clk p b s'))) = data_queue s'
        \<and> data (timerEvent clk (timer s') (start_reading clk p b s'))
            = samples_of (queues s' (data_queue s'))"
  proof
    assume ok: "start_ok p b"
    let ?n = "start_reading clk p b s'"
    have q: "queues ?n (data_queue ?n) = queues s' (data_queue s')"
      by (simp add: start_reading_queue)
    from poll_loop_effect [OF q, of clk 0] start_reading_bound [OF ok, of clk s']
    have "data (poll_loop clk ?n) = samples_of (queues s' (data_queue s'))" by simp
    then have "data (timerEvent clk (timer s') ?n) = samples_of (queues s' (data_queue s'))"
      by (simp add: timerEvent_def Let_def start_reading_queue)
    with start_reading_bound [OF ok, of clk s']
    show "r_data_queue (last (threads ?n)) = data_queue s'
        \<and> data (timerEvent clk (timer s') ?n) = samples_of (queues s' (data_queue s'))"
      by simp
  qed
  show ?thesis by (intro conjI a c start_reading_queue)
qed


theorem C2_one_queue_for_all_sessions_witness:
  "start_ok ''COM1'' ''9600''
   \<and> queues second_session (data_queue second_session) = [Sample (Fin 1)]
   \<and> r_data_queue (last (threads second_session)) = data_queue second_session
   \<and> data (timerEvent real 7 second_session) = [Fin 1]
   \<and> (\<exists>s. exec real [StartClicked ''COM1'' ''9600'', Put 0 (Sample (Fin 1)), StopClicked,
                 StartClicked ''COM1'' ''9600''] (init real 7) = Inr s
          \<and> data_queue s = 0
          \<and> list_all (\<lambda>r. r_data_queue r = 0) (threads s))"
proof -
  have ok: "start_ok ''COM1'' ''9600''" by (simp add: start_ok_def parse_defs)
  from C2_one_queue_for_all_sessions [of real "[StartClicked ''COM1'' ''9600'', Put 0 (Sample (Fin 1)), StopClicked,
                 StartClicked ''COM1'' ''9600'']" 7 "''COM1''" "''9600''"
               "stop_reading (put 0 (Sample (Fin 1)) first_session)"] ok
  show ?thesis by (simp add: example_defs eval_defs)
qed

section \<open>The axis ranges of the redraw\<close>

lemma py_lt_irrefl [simp]: "\<not> py_lt a a"
  by (cases a) simp_all










lemma update_plot_ranges:
  "data s = d # ds \<Longrightarrow> time s \<noteq> [] \<Longrightarrow>
   \<exists>s'. update_plot s = Inr s'
      \<and> xlim s' = Some (max 0 (last (time s) - 30), last (time s) + 1)
      \<and> ylim s' =
          Some (py_sub (py_min d ds)
                  (if py_eq (py_min d ds) (py_max d ds) then Fin 1
                   else py_mul (Fin (5 / 100)) (py_sub (py_max d ds) (py_min d ds))),
                py_add (py_max d ds)
                  (if py_eq (py_min d ds) (py_max d ds) then Fin 1
                   else py_mul (Fin (5 / 100)) (py_sub (py_max d ds) (py_min d ds))))"
proof -
  assume d: "data s = d # ds" and "time s \<noteq> []"
  then obtain t ts where t: "time s = t # ts" by (cases "time s") auto
  have m: "(if last (t # ts) - 30 > 0 then last (t # ts) - 30 else 0)
            = max 0 (last (t # ts) - 30)" by (simp add: max_def)
  show ?thesis
    unfolding update_plot_def d t list.case Let_def m by simp
qed


text \<open>
  C7: with a non-empty buffer whose latest elapsed time is \<open>t\<close>, the redraw passes the
  range from \<open>max(0, t - 30)\<close> to \<open>t + 1\<close> to \<open>set_xlim\<close>: from 15 to 46 for
  \<open>t = 45\<close>, from 0 to 6 for \<open>t = 5\<close>.
\<close>

theorem C7_xlim_trailing_window:
  "data s \<noteq> [] \<Longrightarrow> length (time s) = length (data s) \<Longrightarrow>
   \<exists>s'. update_plot s = Inr s'
      \<and> xlim s' = Some (max 0 (last (time s) - 30), last (time s) + 1)
      \<and> (last (time s) = 45 \<longrightarrow> xlim s' = Some (15, 46))
      \<and> (last (time s) = 5 \<longrightarrow> xlim s' = Some (0, 6))"
proof -
  assume ne: "data s \<noteq> []" and len: "length (time s) = length (data s)"
  from ne obtain d ds where d: "data s = d # ds" by (cases "data s") auto
  from ne len have t: "time s \<noteq> []" by auto
  from update_plot_ranges [OF d t] obtain s' where
    s': "update_plot s = Inr s'"
        "xlim s' = Some (max 0 (last (time s) - 30), last (time s) + 1)"
    by blast
  from s'(2) have a: "last (time s) = 45 \<longrightarrow> xlim s' = Some (15, 46)" by simp
  from s'(2) have b: "last (time s) = 5 \<longrightarrow> xlim s' = Some (0, 6)" by simp
  show ?thesis by (rule exI [of _ s']) (intro conjI s' a b)
qed

theorem C7_xlim_trailing_window_witness:
  "map_sum id xlim (update_plot ((init real 7)\<lparr>data := [Fin 1, Fin 2], time := [44, 45]\<rparr>))
     = Inr (Some (15, 46))
   \<and> map_sum id xlim (update_plot ((init real 7)\<lparr>data := [Fin 2], time := [5]\<rparr>))
     = Inr (Some (0, 6))"
proof
  from C7_xlim_trailing_window [of "(init real 7)\<lparr>data := [Fin 1, Fin 2], time := [44, 45]\<rparr>"]
  obtain s' where "update_plot ((init real 7)\<lparr>data := [Fin 1, Fin 2], time := [44, 45]\<rparr>) = Inr s'"
    "xlim s' = Some (15, 46)" by auto
  then show "map_sum id xlim (update_plot ((init real 7)\<lparr>data := [Fin 1, Fin 2],
      time := [44, 45]\<rparr>)) = Inr (Some (15, 46))" by simp
next
  from C7_xlim_trailing_window [of "(init real 7)\<lparr>data := [Fin 2], time := [5]\<rparr>"]
  obtain s' where "update_plot ((init real 7)\<lparr>data := [Fin 2], time := [5]\<rparr>) = Inr s'"
    "xlim s' = Some (0, 6)" by auto
  then show "map_sum id xlim (update_plot ((init real 7)\<lparr>data := [Fin 2], time := [5]\<rparr>))
     = Inr (Some (0, 6))" by simp
qed







end
